theory Spec2Isabelle
  imports Main
begin

section \<open>Path resolution\<close>

subsection \<open>Go's \<open>path.Clean\<close>\<close>

text \<open>
  \<open>cleanPath\<close> hands its argument to \<open>path.Clean\<close> of the Go standard library. The
  library function walks the bytes of the path with a read index \<open>r\<close>, writes into a
  buffer of \<open>w\<close> bytes, and keeps in \<open>dotdot\<close> the buffer index below which a
  \<open>..\<close> element may not remove anything. The model keeps the unread rest of the path
  in place of \<open>r\<close> and the written part of the buffer as a string, so that \<open>w\<close> is its
  length.

  \<open>backtrack buf dotdot w\<close> is the inner loop of the \<open>..\<close> case, entered after
  \<open>out.w--\<close>: it lowers \<open>w\<close> while \<open>w > dotdot\<close> and the byte at \<open>w\<close> is not a slash.
\<close>

function backtrack :: "string \<Rightarrow> nat \<Rightarrow> nat \<Rightarrow> nat" where
  "backtrack buf dotdot w =
     (if w > dotdot \<and> buf ! w \<noteq> CHR ''/'' then backtrack buf dotdot (w - 1) else w)"
  by pat_completeness auto
termination
  by (relation "measure (\<lambda>(buf, dotdot, w). w)") auto

declare backtrack.simps [simp del]

function clean_loop :: "bool \<Rightarrow> string \<Rightarrow> string \<Rightarrow> nat \<Rightarrow> string" where
  "clean_loop rooted [] out dotdot = out"
| "clean_loop rooted (c # cs) out dotdot =
     (if c = CHR ''/'' then clean_loop rooted cs out dotdot
      else if c = CHR ''.'' \<and> (cs = [] \<or> hd cs = CHR ''/'') then clean_loop rooted cs out dotdot
      else if c = CHR ''.'' \<and> hd cs = CHR ''.'' \<and> (tl cs = [] \<or> hd (tl cs) = CHR ''/'') then
        (if length out > dotdot then
           clean_loop rooted (tl cs) (take (backtrack out dotdot (length out - 1)) out) dotdot
         else if \<not> rooted then
           (let out' = (if length out > 0 then out @ ''/'' else out) @ ''..''
            in clean_loop rooted (tl cs) out' (length out'))
         else clean_loop rooted (tl cs) out dotdot)
      else
        (let out' = (if rooted \<and> length out \<noteq> 1 \<or> \<not> rooted \<and> length out \<noteq> 0
                     then out @ ''/'' else out)
         in clean_loop rooted (dropWhile (\<lambda>x. x \<noteq> CHR ''/'') cs)
              (out' @ c # takeWhile (\<lambda>x. x \<noteq> CHR ''/'') cs) dotdot))"
  by pat_completeness auto
termination
  by (relation "measure (\<lambda>(rooted, rest, out, dotdot). length rest)")
     (auto simp: length_dropWhile_le less_Suc_eq_le)

declare clean_loop.simps [simp del]

definition path_Clean :: "string \<Rightarrow> string" where
  "path_Clean path =
     (if path = [] then ''.''
      else
        (let rooted = (hd path = CHR ''/'');
             out = (if rooted then clean_loop rooted (tl path) ''/'' 1
                    else clean_loop rooted path [] 0)
         in if out = [] then ''.'' else out))"

definition HasPrefix :: "string \<Rightarrow> string \<Rightarrow> bool" where
  "HasPrefix s pre = (take (length pre) s = pre)"

definition cleanPath :: "string \<Rightarrow> string" where
  "cleanPath p =
     (if p = [] then ''/''
      else path_Clean (if \<not> HasPrefix p ''/'' then ''/'' @ p else p))"

subsection \<open>Elements of a cleaned path\<close>

text \<open>
  The vocabulary in which the properties of \<open>cleanPath\<close> are stated: a proper element
  is a non-empty name without a slash that is neither \<open>.\<close> nor \<open>..\<close>, and a rooted path
  is written from a list of elements as \<open>/e1/e2/.../en\<close>, the empty list giving \<open>/\<close>.
\<close>

definition proper_element :: "string \<Rightarrow> bool" where
  "proper_element s = (s \<noteq> [] \<and> CHR ''/'' \<notin> set s \<and> s \<noteq> ''.'' \<and> s \<noteq> ''..'')"

definition slash_joined :: "string list \<Rightarrow> string" where
  "slash_joined es = concat (map ((#) CHR ''/'') es)"

definition rooted_path :: "string list \<Rightarrow> string" where
  "rooted_path es = (if es = [] then ''/'' else slash_joined es)"

definition is_clean :: "string \<Rightarrow> bool" where
  "is_clean out = (\<exists>es. list_all proper_element es \<and> out = rooted_path es)"

text \<open>
  The sentence "collapse \<open>.\<close>/\<open>..\<close> segments and redundant separators", read element by
  element: \<open>elements\<close> cuts a path at its slashes, and \<open>collapse\<close> runs through the
  elements with a stack, dropping an empty element and \<open>.\<close>, letting \<open>..\<close> remove the
  element before it (at the root there is nothing to remove), and keeping any other
  element. \<open>after_element\<close> is what \<open>elements\<close> gives behind the first element.
\<close>

fun elements :: "string \<Rightarrow> string list" where
  "elements [] = [[]]"
| "elements (c # cs) =
     (if c = CHR ''/'' then [] # elements cs
      else (case elements cs of
              [] \<Rightarrow> [[c]]
            | e # es \<Rightarrow> (c # e) # es))"

definition collapse_step :: "string list \<Rightarrow> string \<Rightarrow> string list" where
  "collapse_step stack e =
     (if e = [] \<or> e = ''.'' then stack
      else if e = ''..'' then butlast stack
      else stack @ [e])"

definition collapse :: "string list \<Rightarrow> string list" where
  "collapse es = foldl collapse_step [] es"

definition after_element :: "string \<Rightarrow> string list" where
  "after_element s = (case dropWhile (\<lambda>x. x \<noteq> CHR ''/'') s of [] \<Rightarrow> [] | c # r \<Rightarrow> elements r)"


section \<open>Header projection\<close>

subsection \<open>Routing headers and the values passed for them\<close>

text \<open>
  The primitives take their routing headers as \<open>...interface{}\<close>, and
  \<open>addToRequestHeader\<close> switches on the dynamic type of each value. \<open>header_value\<close>
  lists the dynamic types the switch can meet: the untyped \<open>nil\<close>, a pointer to either
  header struct (\<open>None\<close> is the typed nil pointer), either struct passed by value, and
  any other type, kept by its name.
\<close>

record ClusterTargetHeader =
  OrgID :: string
  SpaceID :: string
  AccountID :: string

record ClusterSoftlayerHeader =
  SoftLayerUsername :: string
  SoftLayerAPIKey :: string

datatype header_value =
    NilInterface
  | PtrClusterTargetHeader "ClusterTargetHeader option"
  | PtrClusterSoftlayerHeader "ClusterSoftlayerHeader option"
  | ValClusterTargetHeader ClusterTargetHeader
  | ValClusterSoftlayerHeader ClusterSoftlayerHeader
  | OtherValue string

subsection \<open>Requests and their header set\<close>

text \<open>
  A request of the SDK's \<open>rest\<close> package: method, URL, header set and optional body. The
  header set is a \<open>net/http\<close> header, a map from header name to the list of its values.
\<close>

type_synonym Header = "string \<rightharpoonup> string list"

record Request =
  httpMethod :: string
  rawUrl :: string
  header :: Header
  body :: "string option"

text \<open>
  \<open>Request.Set\<close> goes through \<open>http.Header.Set\<close>, which stores the value under the
  canonical form of the key: the first letter and every letter after a hyphen in upper
  case, the others in lower case, provided every byte of the key is a token character;
  a key with any other byte is kept as it is.
\<close>

definition isLower :: "char \<Rightarrow> bool" where
  "isLower c = (97 \<le> (of_char c :: nat) \<and> (of_char c :: nat) \<le> 122)"

definition isUpper :: "char \<Rightarrow> bool" where
  "isUpper c = (65 \<le> (of_char c :: nat) \<and> (of_char c :: nat) \<le> 90)"

definition isDigit :: "char \<Rightarrow> bool" where
  "isDigit c = (48 \<le> (of_char c :: nat) \<and> (of_char c :: nat) \<le> 57)"

definition validHeaderFieldByte :: "char \<Rightarrow> bool" where
  "validHeaderFieldByte c =
     (isLower c \<or> isUpper c \<or> isDigit c \<or>
      (of_char c :: nat) \<in> {33, 35, 36, 37, 38, 39, 42, 43, 45, 46, 94, 95, 96, 124, 126})"

fun canonical_loop :: "bool \<Rightarrow> string \<Rightarrow> string" where
  "canonical_loop upper [] = []"
| "canonical_loop upper (c # cs) =
     (let c' = (if upper \<and> isLower c then char_of ((of_char c :: nat) - 32)
                else if \<not> upper \<and> isUpper c then char_of ((of_char c :: nat) + 32)
                else c)
      in c' # canonical_loop (c' = CHR ''-'') cs)"

definition CanonicalMIMEHeaderKey :: "string \<Rightarrow> string" where
  "CanonicalMIMEHeaderKey s = (if list_all validHeaderFieldByte s then canonical_loop True s else s)"

text \<open>\<open>Set\<close> replaces whatever values the header had by the single new one.\<close>

definition Header_Set :: "Header \<Rightarrow> string \<Rightarrow> string \<Rightarrow> Header" where
  "Header_Set h key v = h(CanonicalMIMEHeaderKey key \<mapsto> [v])"

definition Set :: "Request \<Rightarrow> string \<Rightarrow> string \<Rightarrow> Request" where
  "Set r key v = r\<lparr>header := Header_Set (header r) key v\<rparr>"

text \<open>
  Modelled from the spec: the request constructors of the \<open>rest\<close> package are not part
  of the sources. A request is "method, path, optional body payload, mutable header
  set", "built fresh per call": the constructors give a request with the verb's method,
  the URL, no header and no body, and \<open>Body\<close> stores the payload.
\<close>

definition NewRequest :: "string \<Rightarrow> string \<Rightarrow> Request" where
  "NewRequest m u = \<lparr>httpMethod = m, rawUrl = u, header = Map.empty, body = None\<rparr>"

definition GetRequest :: "string \<Rightarrow> Request" where
  "GetRequest u = NewRequest ''GET'' u"

definition PutRequest :: "string \<Rightarrow> Request" where
  "PutRequest u = NewRequest ''PUT'' u"

definition PatchRequest :: "string \<Rightarrow> Request" where
  "PatchRequest u = NewRequest ''PATCH'' u"

definition PostRequest :: "string \<Rightarrow> Request" where
  "PostRequest u = NewRequest ''POST'' u"

definition DeleteRequest :: "string \<Rightarrow> Request" where
  "DeleteRequest u = NewRequest ''DELETE'' u"

definition Body :: "Request \<Rightarrow> string option \<Rightarrow> Request" where
  "Body r data = r\<lparr>body := data\<rparr>"

subsection \<open>\<open>addToRequestHeader\<close>\<close>

definition orgIDHeader :: string where
  "orgIDHeader = ''X-Auth-Resource-Org''"

definition spaceIDHeader :: string where
  "spaceIDHeader = ''X-Auth-Resource-Space''"

definition accountIDHeader :: string where
  "accountIDHeader = ''X-Auth-Resource-Account''"

definition slUserNameHeader :: string where
  "slUserNameHeader = ''X-Auth-Softlayer-Username''"

definition slAPIKeyHeader :: string where
  "slAPIKeyHeader = ''X-Auth-Softlayer-APIKey''"

text \<open>
  The type switch has a case for each pointer type and no default. A case reads the
  fields through the pointer before the first \<open>Set\<close>, so a typed nil pointer panics
  and leaves no result; every other dynamic type matches no case, and the request is
  left as it is.
\<close>

datatype panic = NilPointerDereference

fun addToRequestHeader :: "header_value \<Rightarrow> Request \<Rightarrow> panic + Request" where
  "addToRequestHeader (PtrClusterTargetHeader (Some v)) r =
     Inr (Set (Set (Set r orgIDHeader (OrgID v)) spaceIDHeader (SpaceID v))
            accountIDHeader (AccountID v))"
| "addToRequestHeader (PtrClusterTargetHeader None) r = Inl NilPointerDereference"
| "addToRequestHeader (PtrClusterSoftlayerHeader (Some v)) r =
     Inr (Set (Set r slUserNameHeader (SoftLayerUsername v)) slAPIKeyHeader (SoftLayerAPIKey v))"
| "addToRequestHeader (PtrClusterSoftlayerHeader None) r = Inl NilPointerDereference"
| "addToRequestHeader h r = Inr r"

text \<open>The dynamic types the switch has a case for.\<close>

fun recognized :: "header_value \<Rightarrow> bool" where
  "recognized (PtrClusterTargetHeader p) = True"
| "recognized (PtrClusterSoftlayerHeader p) = True"
| "recognized h = False"

text \<open>
  The loop \<open>for _, t := range targetHeader { addToRequestHeader(t, r) }\<close> of the
  primitives; a panic ends it.
\<close>

fun addTargetHeaders :: "header_value list \<Rightarrow> Request \<Rightarrow> panic + Request" where
  "addTargetHeaders [] r = Inr r"
| "addTargetHeaders (t # ts) r =
     (case addToRequestHeader t r of
        Inl p \<Rightarrow> Inl p
      | Inr r' \<Rightarrow> addTargetHeaders ts r')"


section \<open>The authenticated client core\<close>

subsection \<open>Responses and errors\<close>

text \<open>
  Of a \<open>net/http\<close> response the core reads the status code and, for the host of a
  network error, \<open>resp.Request.URL.Host\<close>. \<open>RequestHost\<close> is \<open>None\<close> when the response
  has no request (as the zero value \<open>new(gohttp.Response)\<close>), in which case reading the
  host dereferences nil.
\<close>

record Response =
  StatusCode :: int
  RequestHost :: "string option"

definition new_Response :: Response where
  "new_Response = \<lparr>StatusCode = 0, RequestHost = None\<rparr>"

text \<open>
  Modelled from the spec: the error types of \<open>bmxerror\<close> are not part of the sources.
  The core tells apart a structured request failure ("an error value carrying an HTTP
  status code and a human-readable description", built by
  \<open>NewRequestFailure code description status\<close>), the refresher's typed invalid-token
  error, and everything else. Among the rest the model names the raw error of the HTTP
  transport and the "structured network-error kind carrying the target host"; any other
  error value, such as the result of \<open>fmt.Errorf\<close> or of a hook, is kept by its text.
\<close>

datatype error =
    TransportError string
  | NetworkError string string
  | RequestFailure string string int
  | InvalidTokenError string
  | OtherError string

subsection \<open>Collaborators\<close>

text \<open>
  \<open>rest.Client.Do\<close> is given by what it returns: for the \<open>n\<close>-th exchange of the run
  (counted from 0), sent with the given default headers and request, a response or nil
  together with an error or nil. A token refresher reads the configuration it shares
  with the client, and returns the configuration as it leaves it, the token and an error
  or nil.

  The functions of this repository that \<open>sendRequest\<close> calls and the sources do not
  contain are parameters of the model: \<open>http.DefaultClusterAuthHeader\<close>,
  \<open>bmxerror.WrapNetworkErrors\<close>, the text \<open>%v\<close> prints for an error, and the transport
  behind \<open>gohttp.DefaultClient\<close>.
\<close>

type_synonym HTTPClient = "nat \<Rightarrow> Header \<Rightarrow> Request \<Rightarrow> Response option \<times> error option"

type_synonym 'cfg TokenRefresher = "'cfg \<Rightarrow> 'cfg \<times> string \<times> error option"

record 'cfg deps =
  DefaultClusterAuthHeader :: "'cfg \<Rightarrow> Header"
  DefaultClient :: HTTPClient
  WrapNetworkErrors :: "string \<Rightarrow> error \<Rightarrow> error"
  ErrorText :: "error \<Rightarrow> string"

text \<open>
  The fields of \<open>clusterClient\<close>. \<open>nil\<close> is \<open>None\<close>. The \<open>Before\<close> hook receives the
  request by pointer, so it returns the request as it leaves it. The field \<open>config\<close> is a
  pointer to a configuration that the refresher holds as well; the object it points to
  lives in the \<open>world\<close> below.
\<close>

record 'cfg clusterClient =
  IAMTokenRefresher :: "'cfg TokenRefresher option"
  BaseURL :: "(unit \<Rightarrow> string) option"
  OnError :: "(int \<Rightarrow> string \<Rightarrow> error option) option"
  Before :: "(Request \<Rightarrow> Request \<times> error option) option"
  HTTPClient :: "HTTPClient option"

text \<open>
  What a call can change: the shared configuration, the exchanges made through
  \<open>rest.Client.Do\<close> (oldest first, each with the default headers and the request it was
  made with), and the number of calls of \<open>RefreshToken\<close>.
\<close>

record 'cfg world =
  config :: 'cfg
  exchanges :: "(Header \<times> Request) list"
  refreshes :: nat

subsection \<open>\<open>sendRequest\<close>\<close>

text \<open>
  The steps of \<open>sendRequest\<close> in the order of the source: the choice of the transport,
  the \<open>Before\<close> hook, one call of \<open>restClient.Do\<close>, the call of \<open>RefreshToken\<close>, the
  wrapping \<open>if err != nil { err = bmxerror.WrapNetworkErrors(resp.Request.URL.Host, err) }\<close>,
  the final translation
  \<open>if errResp, ok := err.(bmxerror.RequestFailure); ok && c.OnError != nil\<close>,
  and the body of the 401 branch with its switch on the type of the refresher's error.
\<close>

definition selectClient :: "'cfg deps \<Rightarrow> 'cfg clusterClient \<Rightarrow> HTTPClient" where
  "selectClient d c = (case HTTPClient c of None \<Rightarrow> DefaultClient d | Some h \<Rightarrow> h)"

definition runBefore :: "'cfg clusterClient \<Rightarrow> Request \<Rightarrow> Request \<times> error option" where
  "runBefore c r = (case Before c of None \<Rightarrow> (r, None) | Some before \<Rightarrow> before r)"

definition rest_Do :: "HTTPClient \<Rightarrow> Header \<Rightarrow> Request \<Rightarrow> 'cfg world
    \<Rightarrow> (Response option \<times> error option) \<times> 'cfg world" where
  "rest_Do httpClient defaultHeader r w =
     (httpClient (length (exchanges w)) defaultHeader r,
      w\<lparr>exchanges := exchanges w @ [(defaultHeader, r)]\<rparr>)"

definition RefreshToken :: "'cfg TokenRefresher \<Rightarrow> 'cfg world \<Rightarrow> error option \<times> 'cfg world" where
  "RefreshToken refresher w =
     (case refresher (config w) of
        (cfg', token, uaaErr) \<Rightarrow> (uaaErr, w\<lparr>config := cfg', refreshes := Suc (refreshes w)\<rparr>))"

definition wrapError :: "'cfg deps \<Rightarrow> Response \<Rightarrow> error option \<Rightarrow> panic + error option" where
  "wrapError d resp err =
     (case err of
        None \<Rightarrow> Inr None
      | Some e \<Rightarrow>
          (case RequestHost resp of
             None \<Rightarrow> Inl NilPointerDereference
           | Some host \<Rightarrow> Inr (Some (WrapNetworkErrors d host e))))"

definition translateError :: "'cfg clusterClient \<Rightarrow> error option \<Rightarrow> error option" where
  "translateError c err =
     (case err of
        Some (RequestFailure code description status) \<Rightarrow>
          (case OnError c of
             Some onError \<Rightarrow> onError status description
           | None \<Rightarrow> err)
      | _ \<Rightarrow> err)"

definition refreshAndRetry :: "'cfg deps \<Rightarrow> 'cfg clusterClient \<Rightarrow> HTTPClient \<Rightarrow> 'cfg TokenRefresher
    \<Rightarrow> Request \<Rightarrow> Response \<Rightarrow> 'cfg world
    \<Rightarrow> (panic + Response option \<times> error option) \<times> 'cfg world" where
  "refreshAndRetry d c httpClient refresher r resp w =
     (case RefreshToken refresher w of
        (None, w') \<Rightarrow>
          (case rest_Do httpClient (DefaultClusterAuthHeader d (config w')) r w' of
             ((resp', err'), w'') \<Rightarrow> (Inr (resp', translateError c err'), w''))
      | (Some (InvalidTokenError t), w') \<Rightarrow>
          (Inr (Some resp,
                Some (RequestFailure ''InvalidToken'' (ErrorText d (InvalidTokenError t)) 401)), w')
      | (Some uaaErr, w') \<Rightarrow>
          (Inr (Some resp,
                Some (OtherError (''Authentication failed, Unable to refresh auth token: ''
                        @ ErrorText d uaaErr @ ''. Try again later''))), w'))"

text \<open>
  A failing hook and a missing response both return \<open>new(gohttp.Response)\<close> with the
  error at hand. The retried response and error replace the first ones and go to the
  final translation unchecked.
\<close>

definition sendRequest :: "'cfg deps \<Rightarrow> 'cfg clusterClient \<Rightarrow> Request \<Rightarrow> 'cfg world
    \<Rightarrow> (panic + Response option \<times> error option) \<times> 'cfg world" where
  "sendRequest d c r w =
     (let httpClient = selectClient d c;
          defaultHeader = DefaultClusterAuthHeader d (config w)
      in case runBefore c r of
           (r', Some err) \<Rightarrow> (Inr (Some new_Response, Some err), w)
         | (r', None) \<Rightarrow>
             (case rest_Do httpClient defaultHeader r' w of
                ((None, err), w') \<Rightarrow> (Inr (Some new_Response, err), w')
              | ((Some resp, err), w') \<Rightarrow>
                  (case wrapError d resp err of
                     Inl p \<Rightarrow> (Inl p, w')
                   | Inr err' \<Rightarrow>
                       if StatusCode resp = 401 \<and> IAMTokenRefresher c \<noteq> None
                       then refreshAndRetry d c httpClient (the (IAMTokenRefresher c)) r' resp w'
                       else (Inr (Some resp, translateError c err'), w'))))"

subsection \<open>The primitives\<close>

text \<open>
  \<open>url\<close> prefixes the cleaned path with the base URL when one is configured. Each
  primitive builds its request, attaches the routing headers and hands the request to
  \<open>sendRequest\<close>; \<open>dispatch\<close> is that common tail. The target \<open>respV\<close> into which the
  response body is decoded is left out: it is only passed on to \<open>rest.Client.Do\<close>.
\<close>

definition url :: "'cfg clusterClient \<Rightarrow> string \<Rightarrow> string" where
  "url c path = (case BaseURL c of None \<Rightarrow> path | Some baseURL \<Rightarrow> baseURL () @ cleanPath path)"

definition dispatch :: "'cfg deps \<Rightarrow> 'cfg clusterClient \<Rightarrow> Request \<Rightarrow> header_value list
    \<Rightarrow> 'cfg world \<Rightarrow> (panic + Response option \<times> error option) \<times> 'cfg world" where
  "dispatch d c r targetHeader w =
     (case addTargetHeaders targetHeader r of
        Inl p \<Rightarrow> (Inl p, w)
      | Inr r' \<Rightarrow> sendRequest d c r' w)"

definition get :: "'cfg deps \<Rightarrow> 'cfg clusterClient \<Rightarrow> string \<Rightarrow> header_value list
    \<Rightarrow> 'cfg world \<Rightarrow> (panic + Response option \<times> error option) \<times> 'cfg world" where
  "get d c path targetHeader w = dispatch d c (GetRequest (url c path)) targetHeader w"

definition put :: "'cfg deps \<Rightarrow> 'cfg clusterClient \<Rightarrow> string \<Rightarrow> string option \<Rightarrow> header_value list
    \<Rightarrow> 'cfg world \<Rightarrow> (panic + Response option \<times> error option) \<times> 'cfg world" where
  "put d c path data targetHeader w =
     dispatch d c (Body (PutRequest (url c path)) data) targetHeader w"

definition patch :: "'cfg deps \<Rightarrow> 'cfg clusterClient \<Rightarrow> string \<Rightarrow> string option \<Rightarrow> header_value list
    \<Rightarrow> 'cfg world \<Rightarrow> (panic + Response option \<times> error option) \<times> 'cfg world" where
  "patch d c path data targetHeader w =
     dispatch d c (Body (PatchRequest (url c path)) data) targetHeader w"

definition post :: "'cfg deps \<Rightarrow> 'cfg clusterClient \<Rightarrow> string \<Rightarrow> string option \<Rightarrow> header_value list
    \<Rightarrow> 'cfg world \<Rightarrow> (panic + Response option \<times> error option) \<times> 'cfg world" where
  "post d c path data targetHeader w =
     dispatch d c (Body (PostRequest (url c path)) data) targetHeader w"

definition delete :: "'cfg deps \<Rightarrow> 'cfg clusterClient \<Rightarrow> string \<Rightarrow> header_value list
    \<Rightarrow> 'cfg world \<Rightarrow> (panic + Response option \<times> error option) \<times> 'cfg world" where
  "delete d c path targetHeader w = dispatch d c (DeleteRequest (url c path)) targetHeader w"


section \<open>Vocabulary of the properties\<close>

fun is_RequestFailure :: "error \<Rightarrow> bool" where
  "is_RequestFailure (RequestFailure code description status) = True"
| "is_RequestFailure e = False"

text \<open>
  Modelled from the spec: \<open>http.DefaultClusterAuthHeader\<close> is not part of the sources.
  The default headers are "bearer token + standard identification headers", and
  "after a successful \<open>RefreshToken()\<close> return, subsequently built default headers
  reflect the new token": the configuration is the token, and the headers carry it as
  \<open>Authorization\<close>.
\<close>

definition spec_DefaultClusterAuthHeader :: "string \<Rightarrow> Header" where
  "spec_DefaultClusterAuthHeader token = [''Authorization'' \<mapsto> [token]]"

text \<open>
  Modelled from the spec: \<open>bmxerror.WrapNetworkErrors\<close> is not part of the sources. "If
  the transport reported a network-level failure, wrap it into a structured
  network-error kind carrying the target host"; a structured failure stays what it is,
  since the error hook receives it afterwards.
\<close>

definition spec_WrapNetworkErrors :: "string \<Rightarrow> error \<Rightarrow> error" where
  "spec_WrapNetworkErrors host err =
     (case err of TransportError reason \<Rightarrow> NetworkError host reason | _ \<Rightarrow> err)"

text \<open>
  Modelled from the spec: the \<open>Error\<close> methods of \<open>bmxerror\<close> are not part of the
  sources. An error prints as the text it carries.
\<close>

fun spec_ErrorText :: "error \<Rightarrow> string" where
  "spec_ErrorText (TransportError s) = s"
| "spec_ErrorText (NetworkError host s) = s"
| "spec_ErrorText (RequestFailure code description status) = description"
| "spec_ErrorText (InvalidTokenError s) = s"
| "spec_ErrorText (OtherError s) = s"

definition spec_deps :: "string deps" where
  "spec_deps =
     \<lparr>DefaultClusterAuthHeader = spec_DefaultClusterAuthHeader,
      DefaultClient = (\<lambda>n h r. (None, Some (TransportError ''no route to host''))),
      WrapNetworkErrors = spec_WrapNetworkErrors,
      ErrorText = spec_ErrorText\<rparr>"


subsection \<open>Scenarios\<close>

text \<open>
  Concrete transports, refreshers and a hook: a server that accepts only the fresh token,
  one that never accepts, one that times out on the second exchange, one that cannot be
  reached, and one whose redirect the HTTP client refuses (the case in which
  \<open>net/http\<close> returns a response together with an error).
\<close>

definition api_host :: string where
  "api_host = ''containers.bluemix.net''"

definition unauthorized :: Response where
  "unauthorized = \<lparr>StatusCode = 401, RequestHost = Some api_host\<rparr>"

definition ok_response :: Response where
  "ok_response = \<lparr>StatusCode = 200, RequestHost = Some api_host\<rparr>"

definition redirected :: Response where
  "redirected = \<lparr>StatusCode = 302, RequestHost = Some api_host\<rparr>"

definition token_expired :: error where
  "token_expired = RequestFailure ''ServerErrorResponse'' ''token expired'' 401"

definition timed_out :: error where
  "timed_out = TransportError ''net/http: request canceled (Client.Timeout exceeded)''"

definition token_checking_transport :: HTTPClient where
  "token_checking_transport n h r =
     (if h ''Authorization'' = Some [''fresh''] then (Some ok_response, None)
      else (Some unauthorized, Some token_expired))"

definition always_unauthorized :: HTTPClient where
  "always_unauthorized n h r = (Some unauthorized, Some token_expired)"

definition unauthorized_then_timeout :: HTTPClient where
  "unauthorized_then_timeout n h r =
     (if n = 0 then (Some unauthorized, Some token_expired) else (None, Some timed_out))"

definition unreachable :: HTTPClient where
  "unreachable n h r = (None, Some timed_out)"

definition redirect_refused :: HTTPClient where
  "redirect_refused n h r = (Some redirected, Some (TransportError ''stopped after 10 redirects''))"

definition fresh_token_refresher :: "string TokenRefresher" where
  "fresh_token_refresher cfg = (''fresh'', ''fresh'', None)"

definition rejecting_refresher :: "string TokenRefresher" where
  "rejecting_refresher cfg = (cfg, [], Some (InvalidTokenError ''refresh token rejected''))"

definition rejecting_hook :: "Request \<Rightarrow> Request \<times> error option" where
  "rejecting_hook r = (r, Some (OtherError ''request rejected before send''))"

definition example_client :: "HTTPClient \<Rightarrow> string TokenRefresher option \<Rightarrow> string clusterClient" where
  "example_client transport refresher =
     \<lparr>IAMTokenRefresher = refresher,
      BaseURL = Some (\<lambda>_. ''https://containers.bluemix.net''),
      OnError = None,
      Before = None,
      HTTPClient = Some transport\<rparr>"

definition list_clusters :: Request where
  "list_clusters = GetRequest ''https://containers.bluemix.net/v1/clusters''"

definition initial_world :: "string world" where
  "initial_world = \<lparr>config = ''expired'', exchanges = [], refreshes = 0\<rparr>"


section \<open>Properties of path resolution\<close>

subsection \<open>The steps of the cleaning loop\<close>

lemma backtrack_scan:
  "CHR ''/'' \<notin> set s \<Longrightarrow> k \<le> length s \<Longrightarrow> dd \<le> length pre + k \<Longrightarrow>
   backtrack (pre @ CHR ''/'' # s) dd (length pre + k) = max dd (length pre)"
proof (induction k)
  case 0
  then show ?case by (subst backtrack.simps) simp
next
  case (Suc k)
  show ?case
  proof (cases "length pre + Suc k > dd")
    case True
    have "(pre @ CHR ''/'' # s) ! (length pre + Suc k) = s ! k"
      by (simp add: nth_append)
    moreover have "s ! k \<in> set s" using Suc.prems by simp
    ultimately have ne: "(pre @ CHR ''/'' # s) ! (length pre + Suc k) \<noteq> CHR ''/''"
      using Suc.prems(1) by metis
    have "backtrack (pre @ CHR ''/'' # s) dd (length pre + Suc k)
          = backtrack (pre @ CHR ''/'' # s) dd (length pre + k)"
      using True ne by (subst backtrack.simps) simp
    also have "\<dots> = max dd (length pre)"
      using Suc.IH Suc.prems True by simp
    finally show ?thesis .
  next
    case False
    then have "dd = length pre + Suc k" using Suc.prems by simp
    then show ?thesis by (subst backtrack.simps) simp
  qed
qed

lemma slash_joined_Nil [simp]: "slash_joined [] = []"
  by (simp add: slash_joined_def)

lemma slash_joined_Cons [simp]: "slash_joined (s # es) = CHR ''/'' # s @ slash_joined es"
  by (simp add: slash_joined_def)

lemma slash_joined_append [simp]: "slash_joined (xs @ ys) = slash_joined xs @ slash_joined ys"
  by (simp add: slash_joined_def)

lemma backtrack_rooted_path:
  assumes "proper_element s"
  shows "take (backtrack (rooted_path (es @ [s])) 1 (length (rooted_path (es @ [s])) - 1))
              (rooted_path (es @ [s])) = rooted_path es"
proof -
  let ?pre = "slash_joined es"
  have r: "rooted_path (es @ [s]) = ?pre @ CHR ''/'' # s"
    by (simp add: rooted_path_def)
  have s: "CHR ''/'' \<notin> set s" "s \<noteq> []" using assms by (auto simp: proper_element_def)
  have "backtrack (?pre @ CHR ''/'' # s) 1 (length ?pre + length s) = max 1 (length ?pre)"
    using s by (intro backtrack_scan) (auto simp: Suc_le_eq)
  then have "take (backtrack (?pre @ CHR ''/'' # s) 1 (length (?pre @ CHR ''/'' # s) - 1))
                  (?pre @ CHR ''/'' # s) = take (max 1 (length ?pre)) (?pre @ CHR ''/'' # s)"
    by simp
  also have "\<dots> = rooted_path es"
    by (cases es) (auto simp: rooted_path_def max_def)
  finally show ?thesis unfolding r .
qed

lemma rooted_path_nonempty: "list_all proper_element es \<Longrightarrow> rooted_path es \<noteq> [] \<and> hd (rooted_path es) = CHR ''/''"
  by (cases es) (auto simp: rooted_path_def)

lemma rooted_path_push:
  assumes "list_all proper_element es0"
  shows "(if True \<and> length (rooted_path es0) \<noteq> 1 \<or> \<not> True \<and> length (rooted_path es0) \<noteq> 0
          then rooted_path es0 @ ''/'' else rooted_path es0) @ s = rooted_path (es0 @ [s])"
proof (cases es0)
  case Nil
  then show ?thesis by (simp add: rooted_path_def)
next
  case (Cons a as)
  then have "length (rooted_path es0) \<noteq> 1"
    using assms by (auto simp: rooted_path_def proper_element_def)
  then show ?thesis using Cons by (simp add: rooted_path_def)
qed

lemma clean_loop_Nil [simp]: "clean_loop rooted [] out dd = out"
  by (simp add: clean_loop.simps)

lemma clean_loop_slash [simp]:
  "clean_loop rooted (CHR ''/'' # cs) out dd = clean_loop rooted cs out dd"
  by (subst clean_loop.simps) simp

lemma clean_loop_dot:
  assumes "cs = [] \<or> hd cs = CHR ''/''"
  shows "clean_loop rooted (CHR ''.'' # cs) out dd = clean_loop rooted cs out dd"
proof -
  have b: "(CHR ''.'' = CHR ''.'' \<and> (cs = [] \<or> hd cs = CHR ''/'')) = True"
    using assms by simp
  show ?thesis
    by (subst clean_loop.simps) (simp only: b if_True, simp)
qed

lemma clean_loop_dotdot:
  assumes "\<not> (cs = [] \<or> hd cs = CHR ''/'')" "hd cs = CHR ''.''"
    and "tl cs = [] \<or> hd (tl cs) = CHR ''/''"
  shows "clean_loop True (CHR ''.'' # cs) out dd =
         clean_loop True (tl cs)
           (if length out > dd then take (backtrack out dd (length out - 1)) out else out) dd"
proof -
  have b: "(CHR ''.'' = CHR ''.'' \<and> (cs = [] \<or> hd cs = CHR ''/'')) = False"
    using assms by simp
  have d: "(CHR ''.'' = CHR ''.'' \<and> hd cs = CHR ''.'' \<and> (tl cs = [] \<or> hd (tl cs) = CHR ''/'')) = True"
    using assms by simp
  show ?thesis
    by (subst clean_loop.simps) (simp only: b d if_True if_False, simp)
qed

lemma clean_loop_elem:
  assumes "c \<noteq> CHR ''/''"
    and "\<not> (c = CHR ''.'' \<and> (cs = [] \<or> hd cs = CHR ''/''))"
    and "\<not> (c = CHR ''.'' \<and> hd cs = CHR ''.'' \<and> (tl cs = [] \<or> hd (tl cs) = CHR ''/''))"
  shows "clean_loop rooted (c # cs) out dd =
         clean_loop rooted (dropWhile (\<lambda>x. x \<noteq> CHR ''/'') cs)
           ((if rooted \<and> length out \<noteq> 1 \<or> \<not> rooted \<and> length out \<noteq> 0
             then out @ ''/'' else out) @ c # takeWhile (\<lambda>x. x \<noteq> CHR ''/'') cs) dd"
proof -
  have a: "(c = CHR ''/'') = False"
    and b: "(c = CHR ''.'' \<and> (cs = [] \<or> hd cs = CHR ''/'')) = False"
    and d: "(c = CHR ''.'' \<and> hd cs = CHR ''.'' \<and> (tl cs = [] \<or> hd (tl cs) = CHR ''/'')) = False"
    using assms by blast+
  show ?thesis
    by (subst clean_loop.simps) (simp only: a b d if_False Let_def)
qed

lemma good_elem:
  assumes "c \<noteq> CHR ''/''"
    and "\<not> (c = CHR ''.'' \<and> (cs = [] \<or> hd cs = CHR ''/''))"
    and "\<not> (c = CHR ''.'' \<and> hd cs = CHR ''.'' \<and> (tl cs = [] \<or> hd (tl cs) = CHR ''/''))"
  shows "proper_element (c # takeWhile (\<lambda>x. x \<noteq> CHR ''/'') cs)"
proof -
  have 1: "CHR ''/'' \<notin> set (c # takeWhile (\<lambda>x. x \<noteq> CHR ''/'') cs)"
    using assms(1) by (auto dest: set_takeWhileD)
  have 2: "c # takeWhile (\<lambda>x. x \<noteq> CHR ''/'') cs \<noteq> ''.''"
    using assms(2) by (cases cs) (auto split: if_splits)
  have 3: "c # takeWhile (\<lambda>x. x \<noteq> CHR ''/'') cs \<noteq> ''..''"
  proof (cases cs)
    case Nil
    then show ?thesis by simp
  next
    case (Cons d ds)
    then show ?thesis using assms(3) by (cases ds) (auto split: if_splits)
  qed
  show ?thesis using 1 2 3 by (simp add: proper_element_def)
qed

subsection \<open>The loop collapses the elements\<close>

lemma elements_split:
  "elements s = takeWhile (\<lambda>x. x \<noteq> CHR ''/'') s # after_element s"
  by (induction s) (auto simp: after_element_def split: list.splits)

lemma elements_first:
  "c \<noteq> CHR ''/'' \<Longrightarrow>
   elements (c # cs) = (c # takeWhile (\<lambda>x. x \<noteq> CHR ''/'') cs) # after_element cs"
  by (subst elements_split) (simp add: after_element_def)

lemma elements_slash [simp]: "elements (CHR ''/'' # cs) = [] # elements cs"
  by simp

declare elements.simps(2) [simp del]

lemma collapse_step_empty [simp]: "collapse_step stack [] = stack"
  by (simp add: collapse_step_def)

lemma dropWhile_slash_head:
  "dropWhile (\<lambda>x. x \<noteq> CHR ''/'') s = c # r \<Longrightarrow> c = CHR ''/''"
  using hd_dropWhile[of "\<lambda>x. x \<noteq> CHR ''/''" s] by auto

lemma foldl_after_element:
  "foldl collapse_step st (elements (dropWhile (\<lambda>x. x \<noteq> CHR ''/'') s))
   = foldl collapse_step st (after_element s)"
proof (cases "dropWhile (\<lambda>x. x \<noteq> CHR ''/'') s")
  case Nil
  show ?thesis unfolding after_element_def Nil by simp
next
  case (Cons c r)
  then have c: "c = CHR ''/''" by (rule dropWhile_slash_head)
  show ?thesis unfolding after_element_def Cons c by simp
qed

lemma clean_loop_collapse:
  "list_all proper_element st \<Longrightarrow>
   clean_loop True rest (rooted_path st) 1 = rooted_path (foldl collapse_step st (elements rest))"
proof (induction "length rest" arbitrary: rest st rule: less_induct)
  case less
  show ?case
  proof (cases rest)
    case Nil
    then show ?thesis by simp
  next
    case (Cons c cs)
    consider (slash) "c = CHR ''/''"
      | (dot) "c = CHR ''.''" "cs = [] \<or> hd cs = CHR ''/''"
      | (dotdot) "c = CHR ''.''" "\<not> (cs = [] \<or> hd cs = CHR ''/'')" "hd cs = CHR ''.''"
                 "tl cs = [] \<or> hd (tl cs) = CHR ''/''"
      | (elem) "c \<noteq> CHR ''/''" "\<not> (c = CHR ''.'' \<and> (cs = [] \<or> hd cs = CHR ''/''))"
          "\<not> (c = CHR ''.'' \<and> hd cs = CHR ''.'' \<and> (tl cs = [] \<or> hd (tl cs) = CHR ''/''))"
      by blast
    then show ?thesis
    proof cases
      case slash
      have "clean_loop True cs (rooted_path st) 1
            = rooted_path (foldl collapse_step st (elements cs))"
        using less.prems Cons by (intro less.hyps) simp_all
      then show ?thesis using Cons slash by simp
    next
      case dot
      have ih: "clean_loop True cs (rooted_path st) 1
            = rooted_path (foldl collapse_step st (elements cs))"
        using less.prems Cons by (intro less.hyps) simp_all
      have tw: "takeWhile (\<lambda>x. x \<noteq> CHR ''/'') cs = []" "dropWhile (\<lambda>x. x \<noteq> CHR ''/'') cs = cs"
        using dot(2) by (cases cs; auto)+
      have "foldl collapse_step st (elements (c # cs)) = foldl collapse_step st (after_element cs)"
        using dot(1) tw by (simp add: elements_first collapse_step_def)
      also have "\<dots> = foldl collapse_step st (elements cs)"
        using foldl_after_element[of st cs] tw by simp
      finally show ?thesis
        using ih Cons dot by (simp only: clean_loop_dot)
    next
      case dotdot
      obtain cs' where cs: "cs = CHR ''.'' # cs'"
        using dotdot(2,3) by (cases cs) auto
      have cs': "cs' = [] \<or> hd cs' = CHR ''/''" using dotdot(4) cs by simp
      have tw: "takeWhile (\<lambda>x. x \<noteq> CHR ''/'') cs = ''.''" "dropWhile (\<lambda>x. x \<noteq> CHR ''/'') cs = cs'"
        using cs' cs by (cases cs'; auto)+
      have out: "(if length (rooted_path st) > 1
                  then take (backtrack (rooted_path st) 1 (length (rooted_path st) - 1)) (rooted_path st)
                  else rooted_path st) = rooted_path (butlast st)"
      proof (cases st rule: rev_cases)
        case Nil
        then show ?thesis by (simp add: rooted_path_def)
      next
        case (snoc ss s)
        then have "proper_element s" using less.prems by simp
        then have "length (rooted_path st) > 1"
          using snoc by (auto simp: rooted_path_def proper_element_def)
        then show ?thesis
          using backtrack_rooted_path[OF \<open>proper_element s\<close>, of ss] snoc by simp
      qed
      have good: "list_all proper_element (butlast st)"
        using less.prems by (cases st rule: rev_cases) simp_all
      have "length (tl cs) < length rest" using Cons cs by simp
      then have ih: "clean_loop True (tl cs) (rooted_path (butlast st)) 1
            = rooted_path (foldl collapse_step (butlast st) (elements (tl cs)))"
        using good by (intro less.hyps)
      have "foldl collapse_step st (elements (c # cs))
            = foldl collapse_step (butlast st) (after_element cs)"
        using dotdot(1) tw by (simp add: elements_first collapse_step_def)
      also have "\<dots> = foldl collapse_step (butlast st) (elements (tl cs))"
        using foldl_after_element[of "butlast st" cs] tw cs by simp
      finally show ?thesis
        unfolding Cons dotdot(1) clean_loop_dotdot[OF dotdot(2,3,4)] out using ih by simp
    next
      case elem
      let ?e = "c # takeWhile (\<lambda>x. x \<noteq> CHR ''/'') cs"
      have e: "proper_element ?e" by (rule good_elem[OF elem])
      have good: "list_all proper_element (st @ [?e])" using less.prems e by simp
      have "length (dropWhile (\<lambda>x. x \<noteq> CHR ''/'') cs) < length rest"
        using Cons length_dropWhile_le[of "\<lambda>x. x \<noteq> CHR ''/''" cs] by simp
      then have ih: "clean_loop True (dropWhile (\<lambda>x. x \<noteq> CHR ''/'') cs) (rooted_path (st @ [?e])) 1
           = rooted_path (foldl collapse_step (st @ [?e])
               (elements (dropWhile (\<lambda>x. x \<noteq> CHR ''/'') cs)))"
        using good by (intro less.hyps)
      have step: "collapse_step st ?e = st @ [?e]"
        using e by (auto simp: collapse_step_def proper_element_def)
      have "foldl collapse_step st (elements (c # cs))
            = foldl collapse_step (st @ [?e]) (after_element cs)"
        using elem(1) step by (simp add: elements_first)
      also have "\<dots> = foldl collapse_step (st @ [?e])
               (elements (dropWhile (\<lambda>x. x \<noteq> CHR ''/'') cs))"
        by (simp add: foldl_after_element)
      finally show ?thesis
        unfolding Cons clean_loop_elem[OF elem] rooted_path_push[OF less.prems] using ih by simp
    qed
  qed
qed

lemma path_Clean_rooted_collapse:
  "path_Clean (CHR ''/'' # q) = rooted_path (collapse (elements (CHR ''/'' # q)))"
proof -
  have "clean_loop True q (rooted_path []) 1 = rooted_path (foldl collapse_step [] (elements q))"
    by (rule clean_loop_collapse) simp
  moreover have "rooted_path (foldl collapse_step [] (elements q)) \<noteq> []"
    by (auto simp: rooted_path_def slash_joined_def split: if_splits)
  ultimately show ?thesis
    by (simp add: path_Clean_def collapse_def rooted_path_def)
qed

lemma cleanPath_collapse: "cleanPath p = rooted_path (collapse (elements p))"
proof (cases p)
  case Nil
  then show ?thesis by (simp add: cleanPath_def collapse_def rooted_path_def)
next
  case (Cons c cs)
  show ?thesis
  proof (cases "c = CHR ''/''")
    case True
    then show ?thesis using Cons path_Clean_rooted_collapse[of cs]
      by (simp add: cleanPath_def HasPrefix_def)
  next
    case False
    have "collapse (elements (CHR ''/'' # p)) = collapse (elements p)"
      by (simp add: collapse_def)
    then show ?thesis using Cons False path_Clean_rooted_collapse[of p]
      by (simp add: cleanPath_def HasPrefix_def)
  qed
qed

lemma elements_no_slash: "e \<in> set (elements s) \<Longrightarrow> CHR ''/'' \<notin> set e"
proof (induction s arbitrary: e)
  case Nil
  then show ?case by simp
next
  case (Cons c cs)
  show ?case
  proof (cases "c = CHR ''/''")
    case True
    then show ?thesis using Cons by auto
  next
    case False
    have "elements (c # cs) = (c # takeWhile (\<lambda>x. x \<noteq> CHR ''/'') cs) # after_element cs"
      using False by (rule elements_first)
    moreover have "elements cs = takeWhile (\<lambda>x. x \<noteq> CHR ''/'') cs # after_element cs"
      by (rule elements_split)
    ultimately show ?thesis using Cons False by auto
  qed
qed

lemma collapse_step_proper:
  assumes "list_all proper_element st" "CHR ''/'' \<notin> set e"
  shows "list_all proper_element (collapse_step st e)"
proof -
  have "list_all proper_element (butlast st)"
    using assms(1) by (cases st rule: rev_cases) simp_all
  then show ?thesis
    using assms by (auto simp: collapse_step_def proper_element_def)
qed

lemma foldl_collapse_proper:
  "list_all proper_element st \<Longrightarrow> (\<And>e. e \<in> set es \<Longrightarrow> CHR ''/'' \<notin> set e) \<Longrightarrow>
   list_all proper_element (foldl collapse_step st es)"
  by (induction es arbitrary: st) (simp_all add: collapse_step_proper)

lemma collapse_proper: "list_all proper_element (collapse (elements p))"
  unfolding collapse_def by (rule foldl_collapse_proper) (simp_all add: elements_no_slash)

lemma cleanPath_is_clean: "is_clean (cleanPath p)"
  unfolding is_clean_def using cleanPath_collapse collapse_proper by blast

subsection \<open>Clean paths are fixed points\<close>

lemma takeWhile_no_slash: "CHR ''/'' \<notin> set s \<Longrightarrow> takeWhile (\<lambda>x. x \<noteq> CHR ''/'') s = s"
  by (induction s) auto

lemma dropWhile_no_slash: "CHR ''/'' \<notin> set s \<Longrightarrow> dropWhile (\<lambda>x. x \<noteq> CHR ''/'') s = []"
  by (induction s) auto

lemma takeWhile_seg: "CHR ''/'' \<notin> set s \<Longrightarrow>
   takeWhile (\<lambda>x. x \<noteq> CHR ''/'') (s @ slash_joined es) = s"
proof (cases es)
  case Nil
  assume "CHR ''/'' \<notin> set s"
  then show ?thesis using Nil by (simp add: takeWhile_no_slash)
next
  case (Cons a as)
  assume "CHR ''/'' \<notin> set s"
  then show ?thesis using Cons by (simp add: takeWhile_tail takeWhile_no_slash)
qed

lemma dropWhile_seg: "CHR ''/'' \<notin> set s \<Longrightarrow>
   dropWhile (\<lambda>x. x \<noteq> CHR ''/'') (s @ slash_joined es) = slash_joined es"
proof (cases es)
  case Nil
  assume "CHR ''/'' \<notin> set s"
  then show ?thesis using Nil by (simp add: dropWhile_no_slash)
next
  case (Cons a as)
  assume "CHR ''/'' \<notin> set s"
  then show ?thesis using Cons by (simp add: dropWhile_append3 dropWhile_no_slash)
qed

lemma clean_loop_seg:
  assumes "proper_element s" "list_all proper_element es0"
  shows "clean_loop True (s @ slash_joined ss) (rooted_path es0) 1
         = clean_loop True (slash_joined ss) (rooted_path (es0 @ [s])) 1"
proof -
  obtain c cs where s: "s = c # cs" using assms(1) by (cases s) (auto simp: proper_element_def)
  have ns: "CHR ''/'' \<notin> set cs" "c \<noteq> CHR ''/''" using assms(1) s by (auto simp: proper_element_def)
  have c2: "\<not> (c = CHR ''.'' \<and> (cs @ slash_joined ss = [] \<or> hd (cs @ slash_joined ss) = CHR ''/''))"
    using assms(1) s ns by (cases cs) (auto simp: proper_element_def)
  have c3: "\<not> (c = CHR ''.'' \<and> hd (cs @ slash_joined ss) = CHR ''.'' \<and>
               (tl (cs @ slash_joined ss) = [] \<or> hd (tl (cs @ slash_joined ss)) = CHR ''/''))"
  proof (cases cs)
    case Nil
    then show ?thesis using assms(1) s by (auto simp: proper_element_def)
  next
    case (Cons d ds)
    then show ?thesis using assms(1) s ns by (cases ds) (auto simp: proper_element_def)
  qed
  have "clean_loop True (c # cs @ slash_joined ss) (rooted_path es0) 1
        = clean_loop True (dropWhile (\<lambda>x. x \<noteq> CHR ''/'') (cs @ slash_joined ss))
           ((if True \<and> length (rooted_path es0) \<noteq> 1 \<or> \<not> True \<and> length (rooted_path es0) \<noteq> 0
             then rooted_path es0 @ ''/'' else rooted_path es0)
            @ c # takeWhile (\<lambda>x. x \<noteq> CHR ''/'') (cs @ slash_joined ss)) 1"
    by (rule clean_loop_elem[OF ns(2) c2 c3])
  also have "\<dots> = clean_loop True (slash_joined ss) (rooted_path (es0 @ [c # cs])) 1"
    unfolding takeWhile_seg[OF ns(1)] dropWhile_seg[OF ns(1)] rooted_path_push[OF assms(2)] ..
  finally show ?thesis unfolding s by simp
qed

lemma clean_loop_body:
  "list_all proper_element es \<Longrightarrow> list_all proper_element es0 \<Longrightarrow>
   clean_loop True (slash_joined es) (rooted_path es0) 1 = rooted_path (es0 @ es)"
proof (induction es arbitrary: es0)
  case Nil
  then show ?case by simp
next
  case (Cons s es)
  have "clean_loop True (slash_joined (s # es)) (rooted_path es0) 1
        = clean_loop True (s @ slash_joined es) (rooted_path es0) 1"
    by simp
  also have "\<dots> = clean_loop True (slash_joined es) (rooted_path (es0 @ [s])) 1"
    using Cons.prems by (intro clean_loop_seg) simp_all
  also have "\<dots> = rooted_path ((es0 @ [s]) @ es)"
    using Cons.prems by (intro Cons.IH) simp_all
  finally show ?case by simp
qed

lemma path_Clean_rooted_path:
  assumes "list_all proper_element es"
  shows "path_Clean (rooted_path es) = rooted_path es"
proof (cases es)
  case Nil
  then show ?thesis by (simp add: path_Clean_def rooted_path_def)
next
  case (Cons s ss)
  have "clean_loop True (s @ slash_joined ss) (rooted_path []) 1 = rooted_path ([] @ s # ss)"
    using assms Cons clean_loop_body[of "s # ss" "[]"] by simp
  then show ?thesis using Cons by (simp add: path_Clean_def rooted_path_def)
qed

lemma cleanPath_fixed: "is_clean q \<Longrightarrow> cleanPath q = q"
proof -
  assume "is_clean q"
  then obtain es where es: "list_all proper_element es" "q = rooted_path es"
    by (auto simp: is_clean_def)
  have "q \<noteq> []" "hd q = CHR ''/''" using rooted_path_nonempty[OF es(1)] es(2) by auto
  then have "HasPrefix q ''/''" by (cases q) (auto simp: HasPrefix_def)
  then show ?thesis using \<open>q \<noteq> []\<close> path_Clean_rooted_path[OF es(1)] es(2)
    by (simp add: cleanPath_def)
qed

lemma cleanPath_add_slash: "\<not> HasPrefix p ''/'' \<Longrightarrow> cleanPath p = cleanPath (CHR ''/'' # p)"
  by (cases p) (simp_all add: cleanPath_def HasPrefix_def path_Clean_def)

subsection \<open>The claims on path resolution\<close>

text \<open>
  Claim C6. Path normalisation yields \<open>/\<close> for the empty path; a path without a leading
  slash is treated as the same path with the slash prepended, and the result always
  starts with a slash; the result is the rooted path of the collapsed elements of the
  input, which has no \<open>.\<close> or \<open>..\<close> element and no empty element (no doubled or trailing
  separator); and \<open>/v1/../v1/clusters\<close> becomes \<open>/v1/clusters\<close>.
\<close>

theorem cleanPath_normalises:
  "cleanPath [] = ''/'' \<and>
   (\<not> HasPrefix p ''/'' \<longrightarrow> cleanPath p = cleanPath (CHR ''/'' # p)) \<and>
   HasPrefix (cleanPath p) ''/'' \<and>
   cleanPath p = rooted_path (collapse (elements p)) \<and>
   list_all proper_element (collapse (elements p)) \<and>
   cleanPath ''/v1/../v1/clusters'' = ''/v1/clusters''"
proof -
  have 1: "cleanPath [] = ''/''" by (simp add: cleanPath_def)
  have 2: "\<not> HasPrefix p ''/'' \<longrightarrow> cleanPath p = cleanPath (CHR ''/'' # p)"
    using cleanPath_add_slash by blast
  have 4: "cleanPath p = rooted_path (collapse (elements p))"
    by (rule cleanPath_collapse)
  have 5: "list_all proper_element (collapse (elements p))"
    by (rule collapse_proper)
  have "cleanPath p \<noteq> [] \<and> hd (cleanPath p) = CHR ''/''"
    using rooted_path_nonempty[OF 5] 4 by simp
  then have 3: "HasPrefix (cleanPath p) ''/''"
    by (cases "cleanPath p") (simp_all add: HasPrefix_def)
  have 6: "cleanPath ''/v1/../v1/clusters'' = ''/v1/clusters''" by code_simp
  show ?thesis using 1 2 3 4 5 6 by blast
qed

theorem cleanPath_normalises_witness:
  "\<not> HasPrefix ''v1//./clusters/../workers/'' ''/'' \<and>
   cleanPath ''v1//./clusters/../workers/'' = cleanPath ''/v1//./clusters/../workers/'' \<and>
   HasPrefix (cleanPath ''v1//./clusters/../workers/'') ''/'' \<and>
   cleanPath ''v1//./clusters/../workers/''
     = rooted_path (collapse (elements ''v1//./clusters/../workers/'')) \<and>
   collapse (elements ''v1//./clusters/../workers/'') = [''v1'', ''workers'']"
proof -
  have h: "\<not> HasPrefix ''v1//./clusters/../workers/'' ''/''"
    by (simp add: HasPrefix_def)
  have c: "collapse (elements ''v1//./clusters/../workers/'') = [''v1'', ''workers'']"
    by code_simp
  from cleanPath_normalises [of "''v1//./clusters/../workers/''"] h c
  show ?thesis by blast
qed

text \<open>
  Claim C10. Path normalisation is idempotent: normalising a normalised path changes
  nothing.
\<close>

theorem cleanPath_idempotent: "cleanPath (cleanPath p) = cleanPath p"
  by (rule cleanPath_fixed[OF cleanPath_is_clean])


section \<open>Properties of header projection\<close>

lemma canonical_orgID: "CanonicalMIMEHeaderKey ''X-Auth-Resource-Org'' = ''X-Auth-Resource-Org''"
  by code_simp

lemma canonical_spaceID: "CanonicalMIMEHeaderKey ''X-Auth-Resource-Space'' = ''X-Auth-Resource-Space''"
  by code_simp

lemma canonical_accountID:
  "CanonicalMIMEHeaderKey ''X-Auth-Resource-Account'' = ''X-Auth-Resource-Account''"
  by code_simp

lemma addToRequestHeader_target:
  "addToRequestHeader (PtrClusterTargetHeader (Some v)) r =
     Inr (r\<lparr>header := (header r)(''X-Auth-Resource-Org'' \<mapsto> [OrgID v],
                                   ''X-Auth-Resource-Space'' \<mapsto> [SpaceID v],
                                   ''X-Auth-Resource-Account'' \<mapsto> [AccountID v])\<rparr>)"
  by (simp add: Set_def Header_Set_def orgIDHeader_def spaceIDHeader_def accountIDHeader_def
      canonical_orgID canonical_spaceID canonical_accountID)

text \<open>
  Claim C7. Projecting the tenant header with \<open>orgID = o1\<close>, \<open>spaceID = s1\<close>,
  \<open>accountID = a1\<close> onto a request sets \<open>X-Auth-Resource-Org\<close>, \<open>X-Auth-Resource-Space\<close>
  and \<open>X-Auth-Resource-Account\<close> to those values and changes nothing else of the request;
  on a fresh request these three are all the headers there are.
\<close>

theorem tenant_header_projection:
  "addToRequestHeader
     (PtrClusterTargetHeader (Some \<lparr>OrgID = ''o1'', SpaceID = ''s1'', AccountID = ''a1''\<rparr>)) r =
   Inr (r\<lparr>header := (header r)(''X-Auth-Resource-Org'' \<mapsto> [''o1''],
                                 ''X-Auth-Resource-Space'' \<mapsto> [''s1''],
                                 ''X-Auth-Resource-Account'' \<mapsto> [''a1''])\<rparr>) \<and>
   addToRequestHeader
     (PtrClusterTargetHeader (Some \<lparr>OrgID = ''o1'', SpaceID = ''s1'', AccountID = ''a1''\<rparr>))
     (NewRequest m u) =
   Inr \<lparr>httpMethod = m, rawUrl = u,
        header = [''X-Auth-Resource-Org'' \<mapsto> [''o1''],
                  ''X-Auth-Resource-Space'' \<mapsto> [''s1''],
                  ''X-Auth-Resource-Account'' \<mapsto> [''a1'']],
        body = None\<rparr>"
  by (simp add: addToRequestHeader_target NewRequest_def del: addToRequestHeader.simps)

text \<open>
  Claim C8. A header value whose dynamic type the projection has no case for adds no
  header: \<open>addToRequestHeader\<close> returns, without panic, the request it was given.
\<close>

theorem unrecognized_header_ignored:
  "\<not> recognized h \<Longrightarrow> addToRequestHeader h r = Inr r"
  by (cases h) simp_all

theorem unrecognized_header_ignored_witness:
  "\<not> recognized (OtherValue ''map[string]string'') \<and>
   addToRequestHeader (OtherValue ''map[string]string'') (GetRequest ''/v1/clusters'')
     = Inr (GetRequest ''/v1/clusters'') \<and>
   \<not> recognized NilInterface \<and>
   addToRequestHeader NilInterface (GetRequest ''/v1/clusters'') = Inr (GetRequest ''/v1/clusters'')"
  using unrecognized_header_ignored [of "OtherValue ''map[string]string''" "GetRequest ''/v1/clusters''"]
    unrecognized_header_ignored [of NilInterface "GetRequest ''/v1/clusters''"]
  by simp

lemma addTargetHeaders_append:
  "addTargetHeaders (ts @ us) r =
     (case addTargetHeaders ts r of Inl p \<Rightarrow> Inl p | Inr r' \<Rightarrow> addTargetHeaders us r')"
  by (induction ts arbitrary: r) (auto split: sum.splits)

lemma addTargetHeaders_skip:
  assumes "\<And>r. addToRequestHeader v r = Inr r"
  shows "addTargetHeaders (ts @ v # us) r = addTargetHeaders (ts @ us) r"
  by (simp add: addTargetHeaders_append assms split: sum.splits)

lemma dispatch_skip:
  assumes "\<And>r. addToRequestHeader v r = Inr r"
  shows "dispatch d c r (ts @ v # us) w = dispatch d c r (ts @ us) w"
  by (simp add: dispatch_def addTargetHeaders_skip[OF assms])

lemmas scenario_defs =
  spec_deps_def spec_DefaultClusterAuthHeader_def spec_WrapNetworkErrors_def example_client_def
  initial_world_def selectClient_def runBefore_def unauthorized_def ok_response_def
  redirected_def token_expired_def timed_out_def api_host_def

text \<open>
  Claim C9. The projection matches pointers only. A \<open>ClusterTargetHeader\<close> or
  \<open>ClusterSoftlayerHeader\<close> passed by value is left out by \<open>addToRequestHeader\<close>, and
  every primitive behaves as if the value had not been passed.
\<close>

theorem by_value_header_ignored:
  assumes "v = ValClusterTargetHeader t \<or> v = ValClusterSoftlayerHeader s"
  shows "addToRequestHeader v r = Inr r \<and>
         get d c path (ts @ v # us) w = get d c path (ts @ us) w \<and>
         put d c path data (ts @ v # us) w = put d c path data (ts @ us) w \<and>
         patch d c path data (ts @ v # us) w = patch d c path data (ts @ us) w \<and>
         post d c path data (ts @ v # us) w = post d c path data (ts @ us) w \<and>
         delete d c path (ts @ v # us) w = delete d c path (ts @ us) w"
proof -
  have skip: "addToRequestHeader v r = Inr r" for r
    using assms by auto
  show ?thesis
    unfolding get_def put_def patch_def post_def delete_def
    using skip by (simp add: dispatch_skip[of v, OF skip])
qed

theorem by_value_header_ignored_witness:
  "addToRequestHeader
     (ValClusterTargetHeader \<lparr>OrgID = ''o1'', SpaceID = ''s1'', AccountID = ''a1''\<rparr>) list_clusters
     = Inr list_clusters \<and>
   get spec_deps (example_client always_unauthorized None) ''/v1/clusters''
     [ValClusterTargetHeader \<lparr>OrgID = ''o1'', SpaceID = ''s1'', AccountID = ''a1''\<rparr>] initial_world
     = get spec_deps (example_client always_unauthorized None) ''/v1/clusters'' [] initial_world \<and>
   delete spec_deps (example_client always_unauthorized None) ''/v1/clusters/c1''
     [ValClusterSoftlayerHeader \<lparr>SoftLayerUsername = ''u'', SoftLayerAPIKey = ''k''\<rparr>] initial_world
     = delete spec_deps (example_client always_unauthorized None) ''/v1/clusters/c1'' [] initial_world"
  using by_value_header_ignored [of
      "ValClusterTargetHeader \<lparr>OrgID = ''o1'', SpaceID = ''s1'', AccountID = ''a1''\<rparr>"
      "\<lparr>OrgID = ''o1'', SpaceID = ''s1'', AccountID = ''a1''\<rparr>" _ list_clusters
      spec_deps "example_client always_unauthorized None" "''/v1/clusters''" "[]" "[]" initial_world]
    by_value_header_ignored [of
      "ValClusterSoftlayerHeader \<lparr>SoftLayerUsername = ''u'', SoftLayerAPIKey = ''k''\<rparr>" _
      "\<lparr>SoftLayerUsername = ''u'', SoftLayerAPIKey = ''k''\<rparr>" list_clusters
      spec_deps "example_client always_unauthorized None" "''/v1/clusters/c1''" "[]" "[]" initial_world]
  by simp

section \<open>Properties of the client core\<close>

text \<open>
  Claim C5. When the registered \<open>Before\<close> hook returns an error, \<open>sendRequest\<close> returns
  the zero-value response with that error, and the world is as before: no exchange was
  made.
\<close>

theorem before_hook_failure:
  assumes "Before c = Some before" and "before r = (r', Some err)"
  shows "sendRequest d c r w = (Inr (Some new_Response, Some err), w)"
  using assms by (simp add: sendRequest_def runBefore_def)

theorem before_hook_failure_witness:
  "sendRequest spec_deps ((example_client always_unauthorized None)\<lparr>Before := Some rejecting_hook\<rparr>)
     list_clusters initial_world =
   (Inr (Some new_Response, Some (OtherError ''request rejected before send'')), initial_world)"
proof -
  have 1: "Before ((example_client always_unauthorized None)\<lparr>Before := Some rejecting_hook\<rparr>)
           = Some rejecting_hook"
    by simp
  have 2: "rejecting_hook list_clusters
           = (list_clusters, Some (OtherError ''request rejected before send''))"
    by (simp add: rejecting_hook_def)
  show ?thesis by (rule before_hook_failure [OF 1 2])
qed

lemma sendRequest_first_exchange:
  assumes "runBefore c r = (r', None)"
    and "selectClient d c (length (exchanges w)) (DefaultClusterAuthHeader d (config w)) r'
           = (Some resp, err)"
    and "wrapError d resp err = Inr err'"
  shows "sendRequest d c r w =
     (let w' = w\<lparr>exchanges := exchanges w @ [(DefaultClusterAuthHeader d (config w), r')]\<rparr>
      in if StatusCode resp = 401 \<and> IAMTokenRefresher c \<noteq> None
         then refreshAndRetry d c (selectClient d c) (the (IAMTokenRefresher c)) r' resp w'
         else (Inr (Some resp, translateError c err'), w'))"
  using assms by (simp add: sendRequest_def rest_Do_def Let_def)

lemma wrapError_ok:
  "err = None \<or> RequestHost resp \<noteq> None \<Longrightarrow> \<exists>err'. wrapError d resp err = Inr err'"
  by (auto simp: wrapError_def split: option.splits)

text \<open>
  Claim C1. When the first response has status 401, a refresher is configured and its
  \<open>RefreshToken\<close> succeeds, \<open>sendRequest\<close> makes exactly two exchanges, the second with
  the default headers rebuilt from the configuration the refresher left, calls
  \<open>RefreshToken\<close> exactly once, and returns the second response whatever its status;
  when the second exchange comes back without error (as a 200 does), so does
  \<open>sendRequest\<close>. The first response carries its request whenever it comes with an
  error, as every response read off the wire does.
\<close>

theorem refresh_then_retry_once:
  assumes before: "runBefore c r = (r', None)"
    and first: "selectClient d c (length (exchanges w)) (DefaultClusterAuthHeader d (config w)) r'
                  = (Some resp, err)"
    and status: "StatusCode resp = 401"
    and host: "err = None \<or> RequestHost resp \<noteq> None"
    and refresher: "IAMTokenRefresher c = Some refresher"
    and refreshed: "refresher (config w) = (cfg', token, None)"
    and second: "selectClient d c (Suc (length (exchanges w))) (DefaultClusterAuthHeader d cfg') r'
                   = (resp2, err2)"
  shows "sendRequest d c r w =
           (Inr (resp2, translateError c err2),
            w\<lparr>config := cfg',
              exchanges := exchanges w @ [(DefaultClusterAuthHeader d (config w), r'),
                                          (DefaultClusterAuthHeader d cfg', r')],
              refreshes := Suc (refreshes w)\<rparr>) \<and>
         (err2 = None \<longrightarrow> fst (sendRequest d c r w) = Inr (resp2, None))"
proof -
  obtain err' where w: "wrapError d resp err = Inr err'"
    using wrapError_ok[OF host] by blast
  have main: "sendRequest d c r w =
           (Inr (resp2, translateError c err2),
            w\<lparr>config := cfg',
              exchanges := exchanges w @ [(DefaultClusterAuthHeader d (config w), r'),
                                          (DefaultClusterAuthHeader d cfg', r')],
              refreshes := Suc (refreshes w)\<rparr>)"
    unfolding sendRequest_first_exchange[OF before first w]
    using status refresher refreshed second
    by (simp add: refreshAndRetry_def RefreshToken_def rest_Do_def)
  moreover have "err2 = None \<longrightarrow> translateError c err2 = None"
    by (simp add: translateError_def)
  ultimately show ?thesis by simp
qed

theorem refresh_then_retry_once_witness:
  "sendRequest spec_deps (example_client token_checking_transport (Some fresh_token_refresher))
     list_clusters initial_world =
   (Inr (Some ok_response, None),
    \<lparr>config = ''fresh'',
     exchanges = [([''Authorization'' \<mapsto> [''expired'']], list_clusters),
                  ([''Authorization'' \<mapsto> [''fresh'']], list_clusters)],
     refreshes = 1\<rparr>)"
proof -
  let ?c = "example_client token_checking_transport (Some fresh_token_refresher)"
  have before: "runBefore ?c list_clusters = (list_clusters, None)"
    by (simp add: scenario_defs)
  have first: "selectClient spec_deps ?c (length (exchanges initial_world))
                 (DefaultClusterAuthHeader spec_deps (config initial_world)) list_clusters
               = (Some unauthorized, Some token_expired)"
    by (simp add: scenario_defs token_checking_transport_def)
  have status: "StatusCode unauthorized = 401"
    by (simp add: unauthorized_def)
  have host: "Some token_expired = None \<or> RequestHost unauthorized \<noteq> None"
    by (simp add: unauthorized_def)
  have refresher: "IAMTokenRefresher ?c = Some fresh_token_refresher"
    by (simp add: example_client_def)
  have refreshed: "fresh_token_refresher (config initial_world) = (''fresh'', ''fresh'', None)"
    by (simp add: fresh_token_refresher_def)
  have second: "selectClient spec_deps ?c (Suc (length (exchanges initial_world)))
                  (DefaultClusterAuthHeader spec_deps ''fresh'') list_clusters
                = (Some ok_response, None)"
    by (simp add: scenario_defs token_checking_transport_def)
  from refresh_then_retry_once [OF before first status host refresher refreshed second]
  show ?thesis by (simp add: scenario_defs translateError_def)
qed

text \<open>
  Claim C2. When the response has status 401 and the refresher returns an invalid-token
  error, \<open>sendRequest\<close> returns that response with a request failure of code
  \<open>InvalidToken\<close> and status 401, after exactly one exchange.
\<close>

theorem invalid_token_no_retry:
  assumes before: "runBefore c r = (r', None)"
    and first: "selectClient d c (length (exchanges w)) (DefaultClusterAuthHeader d (config w)) r'
                  = (Some resp, err)"
    and status: "StatusCode resp = 401"
    and host: "err = None \<or> RequestHost resp \<noteq> None"
    and refresher: "IAMTokenRefresher c = Some refresher"
    and refreshed: "refresher (config w) = (cfg', token, Some (InvalidTokenError t))"
  shows "sendRequest d c r w =
           (Inr (Some resp,
                 Some (RequestFailure ''InvalidToken'' (ErrorText d (InvalidTokenError t)) 401)),
            w\<lparr>config := cfg',
              exchanges := exchanges w @ [(DefaultClusterAuthHeader d (config w), r')],
              refreshes := Suc (refreshes w)\<rparr>)"
proof -
  obtain err' where w: "wrapError d resp err = Inr err'"
    using wrapError_ok[OF host] by blast
  show ?thesis
    unfolding sendRequest_first_exchange[OF before first w]
    using status refresher refreshed
    by (simp add: refreshAndRetry_def RefreshToken_def)
qed

theorem invalid_token_no_retry_witness:
  "sendRequest spec_deps (example_client always_unauthorized (Some rejecting_refresher))
     list_clusters initial_world =
   (Inr (Some unauthorized, Some (RequestFailure ''InvalidToken'' ''refresh token rejected'' 401)),
    \<lparr>config = ''expired'',
     exchanges = [([''Authorization'' \<mapsto> [''expired'']], list_clusters)],
     refreshes = 1\<rparr>)"
proof -
  let ?c = "example_client always_unauthorized (Some rejecting_refresher)"
  have before: "runBefore ?c list_clusters = (list_clusters, None)"
    by (simp add: scenario_defs)
  have first: "selectClient spec_deps ?c (length (exchanges initial_world))
                 (DefaultClusterAuthHeader spec_deps (config initial_world)) list_clusters
               = (Some unauthorized, Some token_expired)"
    by (simp add: scenario_defs always_unauthorized_def)
  have status: "StatusCode unauthorized = 401"
    by (simp add: unauthorized_def)
  have host: "Some token_expired = None \<or> RequestHost unauthorized \<noteq> None"
    by (simp add: unauthorized_def)
  have refresher: "IAMTokenRefresher ?c = Some rejecting_refresher"
    by (simp add: example_client_def)
  have refreshed: "rejecting_refresher (config initial_world)
                   = (''expired'', [], Some (InvalidTokenError ''refresh token rejected''))"
    by (simp add: rejecting_refresher_def initial_world_def)
  from invalid_token_no_retry [OF before first status host refresher refreshed]
  show ?thesis by (simp add: scenario_defs)
qed

text \<open>
  Claim C3 at a failing input. The first exchange is answered 401, the refresh succeeds
  and the retried exchange times out without a response object: \<open>sendRequest\<close> returns
  the missing response.
\<close>

theorem retry_returns_missing_response:
  "sendRequest spec_deps (example_client unauthorized_then_timeout (Some fresh_token_refresher))
     list_clusters initial_world =
   (Inr (None, Some timed_out),
    \<lparr>config = ''fresh'',
     exchanges = [([''Authorization'' \<mapsto> [''expired'']], list_clusters),
                  ([''Authorization'' \<mapsto> [''fresh'']], list_clusters)],
     refreshes = 1\<rparr>)"
  by (simp add: sendRequest_def rest_Do_def wrapError_def refreshAndRetry_def RefreshToken_def
      translateError_def unauthorized_then_timeout_def fresh_token_refresher_def scenario_defs)

text \<open>
  Claim C4 as stated fails: with a transport that cannot be reached, the error returned
  is the transport's own and not the wrapped one.
\<close>

theorem network_failure_raw_counterexample:
  "fst (sendRequest spec_deps (example_client unreachable None) list_clusters initial_world)
     = Inr (Some new_Response, Some timed_out) \<and>
   timed_out \<noteq> WrapNetworkErrors spec_deps api_host timed_out \<and>
   WrapNetworkErrors spec_deps api_host timed_out
     = NetworkError api_host ''net/http: request canceled (Client.Timeout exceeded)''"
  by (simp add: sendRequest_def rest_Do_def unreachable_def scenario_defs)

text \<open>
  Claim C4, as amended. Both parts are about the first exchange of a call whose \<open>Before\<close>
  hook, if any, did not fail. When the first exchange returns no response object,
  \<open>sendRequest\<close> returns the zero-value response with the transport's own error,
  unwrapped, after that one exchange. When the first exchange returns a response object
  carrying its request together with an error, and the refresh branch is not entered
  (the status is not 401 or no refresher is configured), the error returned is
  \<open>WrapNetworkErrors host err\<close>, provided no error hook is registered or the wrapped
  error is not a request failure. Nothing is said of the retried exchange.
\<close>

theorem network_failure_wrapping:
  assumes before: "runBefore c r = (r', None)"
    and w': "w' = w\<lparr>exchanges := exchanges w @ [(DefaultClusterAuthHeader d (config w), r')]\<rparr>"
  shows "(selectClient d c (length (exchanges w)) (DefaultClusterAuthHeader d (config w)) r'
            = (None, err) \<longrightarrow>
          sendRequest d c r w = (Inr (Some new_Response, err), w')) \<and>
         (selectClient d c (length (exchanges w)) (DefaultClusterAuthHeader d (config w)) r'
            = (Some resp, Some e) \<and>
          RequestHost resp = Some host \<and>
          (StatusCode resp \<noteq> 401 \<or> IAMTokenRefresher c = None) \<and>
          (OnError c = None \<or> \<not> is_RequestFailure (WrapNetworkErrors d host e)) \<longrightarrow>
          sendRequest d c r w = (Inr (Some resp, Some (WrapNetworkErrors d host e)), w'))"
proof (intro conjI impI)
  assume "selectClient d c (length (exchanges w)) (DefaultClusterAuthHeader d (config w)) r'
            = (None, err)"
  then show "sendRequest d c r w = (Inr (Some new_Response, err), w')"
    using before w' by (simp add: sendRequest_def rest_Do_def Let_def)
next
  assume a: "selectClient d c (length (exchanges w)) (DefaultClusterAuthHeader d (config w)) r'
            = (Some resp, Some e) \<and>
          RequestHost resp = Some host \<and>
          (StatusCode resp \<noteq> 401 \<or> IAMTokenRefresher c = None) \<and>
          (OnError c = None \<or> \<not> is_RequestFailure (WrapNetworkErrors d host e))"
  then have wr: "wrapError d resp (Some e) = Inr (Some (WrapNetworkErrors d host e))"
    by (simp add: wrapError_def)
  have tr: "translateError c (Some (WrapNetworkErrors d host e)) = Some (WrapNetworkErrors d host e)"
    using a by (cases "WrapNetworkErrors d host e") (auto simp: translateError_def)
  from a have first: "selectClient d c (length (exchanges w)) (DefaultClusterAuthHeader d (config w)) r'
            = (Some resp, Some e)" by simp
  show "sendRequest d c r w = (Inr (Some resp, Some (WrapNetworkErrors d host e)), w')"
    unfolding sendRequest_first_exchange[OF before first wr]
    using a tr w' by (auto simp: Let_def)
qed

theorem network_failure_wrapping_witness:
  "sendRequest spec_deps (example_client unreachable None) list_clusters initial_world
     = (Inr (Some new_Response, Some timed_out),
        \<lparr>config = ''expired'',
         exchanges = [([''Authorization'' \<mapsto> [''expired'']], list_clusters)],
         refreshes = 0\<rparr>) \<and>
   sendRequest spec_deps (example_client redirect_refused None) list_clusters initial_world
     = (Inr (Some redirected, Some (NetworkError api_host ''stopped after 10 redirects'')),
        \<lparr>config = ''expired'',
         exchanges = [([''Authorization'' \<mapsto> [''expired'']], list_clusters)],
         refreshes = 0\<rparr>)"
proof -
  let ?w = "\<lparr>config = ''expired'',
             exchanges = [([''Authorization'' \<mapsto> [''expired'']], list_clusters)],
             refreshes = 0\<rparr>"
  have w: "?w = initial_world\<lparr>exchanges := exchanges initial_world @
             [(DefaultClusterAuthHeader spec_deps (config initial_world), list_clusters)]\<rparr>"
    by (simp add: scenario_defs)
  have b1: "runBefore (example_client unreachable None) list_clusters = (list_clusters, None)"
    by (simp add: scenario_defs)
  have b2: "runBefore (example_client redirect_refused None) list_clusters = (list_clusters, None)"
    by (simp add: scenario_defs)
  have 1: "sendRequest spec_deps (example_client unreachable None) list_clusters initial_world
           = (Inr (Some new_Response, Some timed_out), ?w)"
    using network_failure_wrapping [OF b1 w, of "Some timed_out"]
    by (simp add: scenario_defs unreachable_def)
  have 2: "sendRequest spec_deps (example_client redirect_refused None) list_clusters initial_world
           = (Inr (Some redirected, Some (NetworkError api_host ''stopped after 10 redirects'')), ?w)"
    using network_failure_wrapping [OF b2 w, of _ redirected
        "TransportError ''stopped after 10 redirects''" api_host]
    by (simp add: scenario_defs redirect_refused_def)
  show ?thesis using 1 2 by simp
qed

end
